theory Spec2Isabelle
  imports Main "HOL-Library.Sublist"
begin

section \<open>C strings\<close>

text \<open>
  A \<open>char *\<close> argument is modelled by the bytes stored from the pointer on. The C
  library reads such a buffer up to its first NUL byte only (the end of the list stands
  for the terminator of a buffer that holds no NUL), so every library function below
  sees \<open>c_str\<close> of the buffer.
\<close>

definition NUL :: char where
  "NUL = CHR 0x00"

definition c_str :: "string \<Rightarrow> string" where
  "c_str m = takeWhile (\<lambda>c. c \<noteq> NUL) m"

definition strlen :: "string \<Rightarrow> nat" where
  "strlen m = length (c_str m)"

text \<open>
  \<open>strrchr(s, c)\<close>: a pointer to the last occurrence of \<open>c\<close> in the string, that is the
  rest of the string from that occurrence on, or \<open>NULL\<close> (here \<open>None\<close>).
\<close>

fun strrchr_from :: "string \<Rightarrow> char \<Rightarrow> string option" where
  "strrchr_from [] c = None"
| "strrchr_from (x # xs) c =
     (case strrchr_from xs c of
        Some r \<Rightarrow> Some r
      | None \<Rightarrow> if x = c then Some (x # xs) else None)"

definition strrchr :: "string \<Rightarrow> char \<Rightarrow> string option" where
  "strrchr s c = strrchr_from (c_str s) c"

text \<open>
  \<open>strcmp(a, b)\<close>: zero when the two strings are equal, otherwise the difference of the
  first two bytes that differ, read as unsigned; the terminator counts as byte 0.
\<close>

fun strcmp_from :: "string \<Rightarrow> string \<Rightarrow> int" where
  "strcmp_from [] [] = 0"
| "strcmp_from [] (y # ys) = - int (of_char y)"
| "strcmp_from (x # xs) [] = int (of_char x)"
| "strcmp_from (x # xs) (y # ys) =
     (if x = y then strcmp_from xs ys else int (of_char x) - int (of_char y))"

definition strcmp :: "string \<Rightarrow> string \<Rightarrow> int" where
  "strcmp a b = strcmp_from (c_str a) (c_str b)"

section \<open>Constants of respond.h\<close>

text \<open>
  Modelled from the spec: the header \<open>respond.h\<close> that defines these macros is not
  among the sources. The comment of \<open>write_message\<close> gives the two results (false in
  the case of an error, true otherwise); the spec's table of recognised suffixes gives
  the delimiter and the four extensions, each with the delimiter included.
\<close>

definition WRITE_ERROR :: bool where
  [simp]: "WRITE_ERROR = False"

definition WRITE_SUCCESSFUL :: bool where
  [simp]: "WRITE_SUCCESSFUL = True"

definition SAME_STRING :: int where
  [simp]: "SAME_STRING = 0"

definition FILE_EXTENSION_DELIMITER :: char where
  "FILE_EXTENSION_DELIMITER = CHR ''.''"

definition HTML_EXTENSION :: string where
  "HTML_EXTENSION = ''.html''"

definition JPEG_EXTENSION :: string where
  "JPEG_EXTENSION = ''.jpg''"

definition JAVA_SCRIPT_EXTENSION :: string where
  "JAVA_SCRIPT_EXTENSION = ''.js''"

definition CSS_EXTENSION :: string where
  "CSS_EXTENSION = ''.css''"

section \<open>The operating system\<close>

text \<open>
  What \<open>open\<close> finds at a path: a regular file with its bytes, or something else that
  can be opened (a directory, a device, a socket). A path that cannot be opened, for
  whatever reason, is not in the file system map.
\<close>

datatype node = Regular string | Special

type_synonym filesystem = "string \<Rightarrow> node option"

text \<open>
  What the kernel does at one \<open>write\<close> or \<open>sendfile\<close> call: it reports an error, or it is
  ready to take up to so many bytes. A call is never given more than it asks for.
\<close>

datatype outcome = Fail | Accept nat

text \<open>The log of output calls: descriptors, arguments and the value returned.\<close>

datatype syscall =
    SysWrite int string int
  | SysSendfile int int int int int

fun sys_ret :: "syscall \<Rightarrow> int" where
  "sys_ret (SysWrite fd buf r) = r"
| "sys_ret (SysSendfile out_fd in_fd off cnt r) = r"

definition failed :: "syscall \<Rightarrow> bool" where
  "failed c = (sys_ret c < 0)"

text \<open>
  The state of the process and of its peer: the outcomes of the output calls still to
  come, in order (a run that needs one more outcome than the script holds has not
  returned: its result is \<open>None\<close>); the bytes each socket has accepted; the log of output
  calls; and the table of open descriptors.
\<close>

record world =
  script :: "outcome list"
  sock_out :: "int \<Rightarrow> string"
  calls :: "syscall list"
  fd_table :: "(int \<times> node) list"

definition open_fds :: "world \<Rightarrow> int set" where
  "open_fds w = fst ` set (fd_table w)"

text \<open>The lowest descriptor number that is not in use, as POSIX allocates it.\<close>

definition lowest_unused :: "int list \<Rightarrow> int" where
  "lowest_unused used =
     hd (filter (\<lambda>n. n \<notin> set used) (map int [0 ..< Suc (length used)]))"

text \<open>\<open>open(path, O_RDONLY)\<close>: \<open>-1\<close>, or a new descriptor entered in the table.\<close>

definition sys_open :: "filesystem \<Rightarrow> string \<Rightarrow> world \<Rightarrow> int \<times> world" where
  "sys_open fs path w =
     (case fs (c_str path) of
        None \<Rightarrow> (- 1, w)
      | Some nd \<Rightarrow>
          (let fd = lowest_unused (map fst (fd_table w))
           in (fd, w\<lparr>fd_table := (fd, nd) # fd_table w\<rparr>)))"

text \<open>
  \<open>fstat(fd, &file_stat)\<close>: the fields the code reads, \<open>S_ISREG(st_mode)\<close> and \<open>st_size\<close>.
  The code does not look at the value \<open>fstat\<close> returns; it calls \<open>fstat\<close> only on the
  descriptor \<open>open\<close> has just returned, which is in the table (lemma
  \<open>fstat_after_open\<close>), so the last case, where the structure would stay unwritten,
  does not arise.
\<close>

record stat =
  st_is_reg :: bool
  st_size :: int

definition sys_fstat :: "int \<Rightarrow> world \<Rightarrow> stat" where
  "sys_fstat fd w =
     (case map_of (fd_table w) fd of
        Some (Regular data) \<Rightarrow> \<lparr>st_is_reg = True, st_size = int (length data)\<rparr>
      | Some Special \<Rightarrow> \<lparr>st_is_reg = False, st_size = 0\<rparr>
      | None \<Rightarrow> \<lparr>st_is_reg = False, st_size = 0\<rparr>)"

text \<open>
  \<open>write(fd, buf, count)\<close>: on an error \<open>-1\<close> and nothing written; otherwise the kernel
  takes a prefix of the \<open>count\<close> bytes and returns its length.
\<close>

definition sys_write :: "int \<Rightarrow> string \<Rightarrow> nat \<Rightarrow> world \<Rightarrow> (int \<times> world) option" where
  "sys_write fd buf count w =
     (case script w of
        [] \<Rightarrow> None
      | Fail # s \<Rightarrow>
          Some (- 1, w\<lparr>script := s,
                       calls := calls w @ [SysWrite fd (take count buf) (- 1)]\<rparr>)
      | Accept k # s \<Rightarrow>
          (let m = min k count
           in Some (int m,
                w\<lparr>script := s,
                  sock_out := (sock_out w)(fd := sock_out w fd @ take m (take count buf)),
                  calls := calls w @ [SysWrite fd (take count buf) (int m)]\<rparr>)))"

text \<open>
  \<open>sendfile(out_fd, in_fd, &offset, count)\<close>: copies up to \<open>count\<close> bytes of the file,
  starting at \<open>offset\<close> and stopping at the end of the file, to the socket; it returns
  the number of bytes copied and sets the variable \<open>offset\<close> points to to the offset
  of the byte after the last one read. On an error it returns \<open>-1\<close> and leaves the
  variable alone. The result is the value returned, the new value of the offset
  variable, and the world.
\<close>

definition sys_sendfile ::
  "int \<Rightarrow> int \<Rightarrow> int \<Rightarrow> int \<Rightarrow> world \<Rightarrow> (int \<times> int \<times> world) option" where
  "sys_sendfile out_fd in_fd offset count w =
     (case script w of
        [] \<Rightarrow> None
      | Fail # s \<Rightarrow>
          Some (- 1, offset,
                w\<lparr>script := s,
                  calls := calls w @ [SysSendfile out_fd in_fd offset count (- 1)]\<rparr>)
      | Accept k # s \<Rightarrow>
          (case map_of (fd_table w) in_fd of
             Some (Regular data) \<Rightarrow>
               (if offset < 0 then
                  Some (- 1, offset,
                        w\<lparr>script := s,
                          calls := calls w @ [SysSendfile out_fd in_fd offset count (- 1)]\<rparr>)
                else
                  (let m = min k (min (nat count) (length data - nat offset));
                       bytes = take m (drop (nat offset) data)
                   in Some (int m, offset + int m,
                        w\<lparr>script := s,
                          sock_out := (sock_out w)(out_fd := sock_out w out_fd @ bytes),
                          calls := calls w @ [SysSendfile out_fd in_fd offset count (int m)]\<rparr>)))
           | _ \<Rightarrow>
               Some (- 1, offset,
                     w\<lparr>script := s,
                       calls := calls w @ [SysSendfile out_fd in_fd offset count (- 1)]\<rparr>)))"

section \<open>respond.c\<close>

definition CRLF :: string where
  "CRLF = [CHR 0x0D, CHR 0x0A]"

definition NOT_FOUND_RESPONSE :: string where
  "NOT_FOUND_RESPONSE = ''HTTP/1.0 404 Not Found'' @ CRLF @ CRLF"

definition OK_STATUS_LINE :: string where
  "OK_STATUS_LINE = ''HTTP/1.0 200 OK'' @ CRLF"

text \<open>
  \<open>write_message\<close>: one \<open>write\<close> of \<open>strlen(message)\<close> bytes; \<open>WRITE_ERROR\<close> when the value
  returned is negative, \<open>WRITE_SUCCESSFUL\<close> otherwise. (\<open>perror\<close> writes to the standard
  error stream, which is not part of the model.) The code keeps the value \<open>write\<close>
  returns in an \<open>int\<close>; one call transfers fewer than \<open>2 ^ 31\<close> bytes, so the value fits
  and keeps its sign.
\<close>

definition write_message :: "int \<Rightarrow> string \<Rightarrow> world \<Rightarrow> (bool \<times> world) option" where
  "write_message sockfd_to_send message w =
     (case sys_write sockfd_to_send message (strlen message) w of
        None \<Rightarrow> None
      | Some (n, w') \<Rightarrow>
          if n < 0 then Some (WRITE_ERROR, w') else Some (WRITE_SUCCESSFUL, w'))"

definition write_content_type :: "int \<Rightarrow> string \<Rightarrow> world \<Rightarrow> (bool \<times> world) option" where
  "write_content_type sockfd_to_send file_path w =
     (case strrchr file_path FILE_EXTENSION_DELIMITER of
        Some extension \<Rightarrow>
          if strcmp extension HTML_EXTENSION = SAME_STRING then
            (case write_message sockfd_to_send ''text/html'' w of
               None \<Rightarrow> None
             | Some (r, w') \<Rightarrow>
                 if r = WRITE_ERROR then Some (WRITE_ERROR, w') else Some (WRITE_SUCCESSFUL, w'))
          else if strcmp extension JPEG_EXTENSION = SAME_STRING then
            (case write_message sockfd_to_send ''image/jpeg'' w of
               None \<Rightarrow> None
             | Some (r, w') \<Rightarrow>
                 if r = WRITE_ERROR then Some (WRITE_ERROR, w') else Some (WRITE_SUCCESSFUL, w'))
          else if strcmp extension JAVA_SCRIPT_EXTENSION = SAME_STRING then
            (case write_message sockfd_to_send ''text/javascript'' w of
               None \<Rightarrow> None
             | Some (r, w') \<Rightarrow>
                 if r = WRITE_ERROR then Some (WRITE_ERROR, w') else Some (WRITE_SUCCESSFUL, w'))
          else if strcmp extension CSS_EXTENSION = SAME_STRING then
            (case write_message sockfd_to_send ''text/css'' w of
               None \<Rightarrow> None
             | Some (r, w') \<Rightarrow>
                 if r = WRITE_ERROR then Some (WRITE_ERROR, w') else Some (WRITE_SUCCESSFUL, w'))
          else
            (case write_message sockfd_to_send ''application/octet-stream'' w of
               None \<Rightarrow> None
             | Some (r, w') \<Rightarrow>
                 if r = WRITE_ERROR then Some (WRITE_ERROR, w') else Some (WRITE_SUCCESSFUL, w'))
      | None \<Rightarrow>
          (case write_message sockfd_to_send ''application/octet-stream'' w of
             None \<Rightarrow> None
           | Some (r, w') \<Rightarrow>
               if r = WRITE_ERROR then Some (WRITE_ERROR, w') else Some (WRITE_SUCCESSFUL, w')))"

text \<open>
  The body loop of \<open>send_http_response\<close>. \<open>sendfile\<close> is given the address of
  \<open>total_num_bytes_sent\<close> as its offset and the whole file size as its count; when it
  returns a count that is not negative, the code adds that count to
  \<open>total_num_bytes_sent\<close>, which \<open>sendfile\<close> has already advanced. The result is the
  last value of \<open>total_num_bytes_sent\<close> and the world. The three \<open>off_t\<close> variables are
  64-bit and signed; twice the size of a file is far inside that range, so \<open>int\<close>
  stands for them with no wrap-around.
\<close>

function sendfile_loop :: "int \<Rightarrow> int \<Rightarrow> int \<Rightarrow> int \<Rightarrow> world \<Rightarrow> (int \<times> world) option" where
  "sendfile_loop sockfd_to_send file_path_fd total_num_bytes_sent file_to_send_size w =
     (if total_num_bytes_sent < file_to_send_size then
        (case sys_sendfile sockfd_to_send file_path_fd total_num_bytes_sent file_to_send_size w of
           None \<Rightarrow> None
         | Some (bytes_successfully_sent, offset, w') \<Rightarrow>
             if bytes_successfully_sent \<ge> 0 then
               sendfile_loop sockfd_to_send file_path_fd
                 (offset + bytes_successfully_sent) file_to_send_size w'
             else Some (offset, w'))
      else Some (total_num_bytes_sent, w))"
  by pat_completeness auto

lemma sys_sendfile_Nil:
  "script w = [] \<Longrightarrow> sys_sendfile out_fd in_fd offset count w = None"
  by (simp add: sys_sendfile_def)

lemma sys_sendfile_Cons:
  "script w = oc # s \<Longrightarrow>
   \<exists>r off' w'. sys_sendfile out_fd in_fd offset count w = Some (r, off', w') \<and> script w' = s"
  by (simp add: sys_sendfile_def Let_def split: outcome.split option.split node.split)

lemma sys_sendfile_script:
  assumes "sys_sendfile out_fd in_fd offset count w = Some (r, off', w')"
  shows "length (script w') < length (script w)"
proof (cases "script w")
  case Nil
  with assms show ?thesis by (simp add: sys_sendfile_Nil)
next
  case (Cons oc s)
  from sys_sendfile_Cons [OF Cons, of out_fd in_fd offset count] assms Cons
  show ?thesis by auto
qed

termination sendfile_loop
proof (relation "measure (\<lambda>(s, f, t, n, w). length (script w))")
  show "wf (measure (\<lambda>(s, f, t, n, w). length (script w)))" by simp
next
  fix s f t n :: int and w :: world and x2 r y off' w'
  assume "sys_sendfile s f t n w = Some x2" and "(r, y) = x2" and "(off', w') = y"
  then have "sys_sendfile s f t n w = Some (r, off', w')" by simp
  then have "length (script w') < length (script w)" by (rule sys_sendfile_script)
  then show "((s, f, off' + r, n, w'), (s, f, t, n, w))
     \<in> measure (\<lambda>(s, f, t, n, w). length (script w))"
    by simp
qed

definition send_http_response :: "filesystem \<Rightarrow> int \<Rightarrow> string \<Rightarrow> world \<Rightarrow> world option" where
  "send_http_response fs sockfd_to_send file_path w =
     (case sys_open fs file_path w of
        (file_path_fd, w0) \<Rightarrow>
          if file_path_fd < 0 then
            (case write_message sockfd_to_send NOT_FOUND_RESPONSE w0 of
               None \<Rightarrow> None
             | Some (r, w1) \<Rightarrow> Some w1)
          else
            (let file_stat = sys_fstat file_path_fd w0 in
             if st_is_reg file_stat then
               (case write_message sockfd_to_send OK_STATUS_LINE w0 of
                  None \<Rightarrow> None
                | Some (r1, w1) \<Rightarrow>
                    if r1 = WRITE_ERROR then Some w1
                    else
                      (case write_message sockfd_to_send ''Content-Type: '' w1 of
                         None \<Rightarrow> None
                       | Some (r2, w2) \<Rightarrow>
                           if r2 = WRITE_ERROR then Some w2
                           else
                             (case write_content_type sockfd_to_send file_path w2 of
                                None \<Rightarrow> None
                              | Some (r3, w3) \<Rightarrow>
                                  if r3 = WRITE_ERROR then Some w3
                                  else
                                    (case write_message sockfd_to_send (CRLF @ CRLF) w3 of
                                       None \<Rightarrow> None
                                     | Some (r4, w4) \<Rightarrow>
                                         if r4 = WRITE_ERROR then Some w4
                                         else
                                           (case sendfile_loop sockfd_to_send file_path_fd 0
                                                   (st_size file_stat) w4 of
                                              None \<Rightarrow> None
                                            | Some (final_total, w5) \<Rightarrow> Some w5)))))
             else
               (case write_message sockfd_to_send NOT_FOUND_RESPONSE w0 of
                  None \<Rightarrow> None
                | Some (r, w1) \<Rightarrow> Some w1)))"

section \<open>The content-type resolver of the specification\<close>

text \<open>
  The resolver as the specification words it, to be compared with what
  \<open>write_content_type\<close> writes: the suffix of the path that starts at the last
  occurrence of the extension delimiter, if there is one, is looked up in the table of
  recognised suffixes, and everything else is the generic binary type.
\<close>

definition last_delimiter_suffix :: "string \<Rightarrow> string option" where
  "last_delimiter_suffix p =
     (if CHR ''.'' \<in> set p
      then Some (CHR ''.'' # rev (takeWhile (\<lambda>c. c \<noteq> CHR ''.'') (rev p)))
      else None)"


definition resolve_content_type :: "string \<Rightarrow> string" where
  "resolve_content_type p =
     (case last_delimiter_suffix p of
        None \<Rightarrow> ''application/octet-stream''
      | Some sfx \<Rightarrow>
          if sfx = ''.html'' then ''text/html''
          else if sfx = ''.jpg'' then ''image/jpeg''
          else if sfx = ''.js'' then ''text/javascript''
          else if sfx = ''.css'' then ''text/css''
          else ''application/octet-stream'')"

section \<open>Notions used to state the properties\<close>

text \<open>A list of calls in which no call but the last one reports an error.\<close>

definition fail_only_last :: "syscall list \<Rightarrow> bool" where
  "fail_only_last cs = list_all (\<lambda>c. \<not> failed c) (butlast cs)"

text \<open>
  The bytes a logged call has handed to its socket, read off its arguments and its
  return value (for \<open>sendfile\<close>, off the file its descriptor stands for).
\<close>

fun delivered :: "(int \<times> node) list \<Rightarrow> syscall \<Rightarrow> string" where
  "delivered tbl (SysWrite fd buf r) = take (nat r) buf"
| "delivered tbl (SysSendfile out_fd in_fd off cnt r) =
     (case map_of tbl in_fd of
        Some (Regular data) \<Rightarrow> take (nat r) (drop (nat off) data)
      | _ \<Rightarrow> [])"

text \<open>
  \<open>trail sock w w' cs\<close>: from \<open>w\<close> to \<open>w'\<close> the process has made the output calls
  \<open>cs\<close>, one for each outcome of the script it has used up, none but the last of them
  failing and no outcome before the last one used up being an error; the socket \<open>sock\<close> has received what these calls delivered and no other
  socket anything; no descriptor has been opened or closed.
\<close>

definition trail :: "int \<Rightarrow> world \<Rightarrow> world \<Rightarrow> syscall list \<Rightarrow> bool" where
  "trail sock w w' cs \<longleftrightarrow>
     fd_table w' = fd_table w \<and> calls w' = calls w @ cs \<and> fail_only_last cs \<and>
     script w' = drop (length cs) (script w) \<and> length cs \<le> length (script w) \<and>
     Fail \<notin> set (take (length cs - 1) (script w)) \<and>
     sock_out w' = (sock_out w)(sock := sock_out w sock @ concat (map (delivered (fd_table w)) cs))"

text \<open>The world after a successful \<open>open\<close> of a node.\<close>

definition opened :: "node \<Rightarrow> world \<Rightarrow> world" where
  "opened nd w = w\<lparr>fd_table := (lowest_unused (map fst (fd_table w)), nd) # fd_table w\<rparr>"

text \<open>
  The branch of \<open>send_http_response\<close> for a regular file, as a function of the
  descriptor and of the size \<open>fstat\<close> has reported (lemma
  \<open>send_http_response_regular\<close>).
\<close>

definition serve_regular :: "int \<Rightarrow> string \<Rightarrow> int \<Rightarrow> int \<Rightarrow> world \<Rightarrow> world option" where
  "serve_regular sockfd_to_send file_path file_path_fd file_to_send_size w0 =
     (case write_message sockfd_to_send OK_STATUS_LINE w0 of
        None \<Rightarrow> None
      | Some (r1, w1) \<Rightarrow>
          if r1 = WRITE_ERROR then Some w1
          else
            (case write_message sockfd_to_send ''Content-Type: '' w1 of
               None \<Rightarrow> None
             | Some (r2, w2) \<Rightarrow>
                 if r2 = WRITE_ERROR then Some w2
                 else
                   (case write_content_type sockfd_to_send file_path w2 of
                      None \<Rightarrow> None
                    | Some (r3, w3) \<Rightarrow>
                        if r3 = WRITE_ERROR then Some w3
                        else
                          (case write_message sockfd_to_send (CRLF @ CRLF) w3 of
                             None \<Rightarrow> None
                           | Some (r4, w4) \<Rightarrow>
                               if r4 = WRITE_ERROR then Some w4
                               else
                                 (case sendfile_loop sockfd_to_send file_path_fd 0
                                         file_to_send_size w4 of
                                    None \<Rightarrow> None
                                  | Some (final_total, w5) \<Rightarrow> Some w5)))))"

text \<open>
  A small file system and an initial world, for the concrete runs below: one regular
  file of four bytes, one directory.
\<close>

definition demo_fs :: filesystem where
  "demo_fs p = (if p = ''/www/index.html'' then Some (Regular ''abcd'')
                else if p = ''/www'' then Some Special else None)"


definition demo_world :: "outcome list \<Rightarrow> world" where
  "demo_world sc = \<lparr>script = sc, sock_out = (\<lambda>fd. []), calls = [], fd_table = []\<rparr>"

section \<open>Lemmas\<close>

declare sendfile_loop.simps [simp del]

lemma take_strlen [simp]: "take (strlen m) m = c_str m"
  unfolding strlen_def c_str_def by (induction m) auto

lemma length_c_str [simp]: "length (c_str m) = strlen m"
  by (simp add: strlen_def)

lemma NUL_notin_c_str [simp]: "NUL \<notin> set (c_str m)"
  by (auto simp: c_str_def dest: set_takeWhileD)

lemma c_str_no_NUL: "NUL \<notin> set m \<Longrightarrow> c_str m = m"
  unfolding c_str_def by (induction m) auto

lemma c_str_idem [simp]: "c_str (c_str m) = c_str m"
  by (simp add: c_str_no_NUL)

lemma write_message_Nil:
  "script w = [] \<Longrightarrow> write_message fd m w = None"
  by (simp add: write_message_def sys_write_def)

lemma write_message_Fail:
  "script w = Fail # s \<Longrightarrow>
   write_message fd m w =
     Some (WRITE_ERROR, w\<lparr>script := s, calls := calls w @ [SysWrite fd (c_str m) (- 1)]\<rparr>)"
  by (simp add: write_message_def sys_write_def)

lemma write_message_Accept:
  "script w = Accept k # s \<Longrightarrow>
   write_message fd m w =
     Some (WRITE_SUCCESSFUL,
       w\<lparr>script := s,
         sock_out := (sock_out w)(fd := sock_out w fd @ take k (c_str m)),
         calls := calls w @ [SysWrite fd (c_str m) (int (min k (strlen m)))]\<rparr>)"
  by (simp add: write_message_def sys_write_def Let_def min_def)

lemma sendfile_loop_done:
  "\<not> t < n \<Longrightarrow> sendfile_loop s f t n w = Some (t, w)"
  by (subst sendfile_loop.simps) simp

lemma sendfile_loop_step:
  "t < n \<Longrightarrow> sendfile_loop s f t n w =
     (case sys_sendfile s f t n w of
        None \<Rightarrow> None
      | Some (r, off', w') \<Rightarrow>
          if r \<ge> 0 then sendfile_loop s f (off' + r) n w' else Some (off', w'))"
  by (subst sendfile_loop.simps) simp

lemma of_char_zero_iff: "of_char c = (0::nat) \<longleftrightarrow> c = NUL"
  unfolding NUL_def using of_char_eq_iff [of c "CHR 0x00", where ?'a = nat] by simp

lemma strcmp_from_zero_iff:
  "NUL \<notin> set xs \<Longrightarrow> NUL \<notin> set ys \<Longrightarrow> strcmp_from xs ys = 0 \<longleftrightarrow> xs = ys"
  by (induction xs ys rule: strcmp_from.induct) (auto simp: of_char_zero_iff)

lemma strcmp_zero_iff: "strcmp a b = 0 \<longleftrightarrow> c_str a = c_str b"
  by (simp add: strcmp_def strcmp_from_zero_iff)

lemma strrchr_from_None: "strrchr_from p c = None \<longleftrightarrow> c \<notin> set p"
  by (induction p) (auto split: option.splits)

lemma strrchr_from_last:
  "c \<notin> set e \<Longrightarrow> strrchr_from (pre @ c # e) c = Some (c # e)"
proof (induction pre)
  case Nil
  then have "strrchr_from e c = None" by (simp add: strrchr_from_None)
  then show ?case by simp
next
  case (Cons x pre)
  then show ?case by simp
qed

lemma last_delimiter_split:
  assumes "c \<in> set p"
  shows "\<exists>pre. p = pre @ c # rev (takeWhile (\<lambda>x. x \<noteq> c) (rev p))"
proof -
  from split_list_last [OF assms] obtain ys zs where p: "p = ys @ c # zs" and zs: "c \<notin> set zs"
    by blast
  have "takeWhile (\<lambda>x. x \<noteq> c) (rev p) = rev zs"
    using zs by (auto simp add: p takeWhile_tail)
  then show ?thesis using p by auto
qed

lemma strrchr_from_spec:
  "strrchr_from p (CHR ''.'') = last_delimiter_suffix p"
proof (cases "CHR ''.'' \<in> set p")
  case False
  then show ?thesis by (simp add: last_delimiter_suffix_def strrchr_from_None)
next
  case True
  let ?e = "rev (takeWhile (\<lambda>x. x \<noteq> CHR ''.'') (rev p))"
  from last_delimiter_split [OF True] obtain pre where p: "p = pre @ CHR ''.'' # ?e" by blast
  have "CHR ''.'' \<notin> set ?e" by (auto dest: set_takeWhileD)
  from strrchr_from_last [OF this, of pre] p True show ?thesis
    by (simp add: last_delimiter_suffix_def)
qed

lemma last_delimiter_suffix_NUL:
  "NUL \<notin> set p \<Longrightarrow> last_delimiter_suffix p = Some sfx \<Longrightarrow> NUL \<notin> set sfx"
  by (auto simp: last_delimiter_suffix_def NUL_def split: if_splits dest!: set_takeWhileD)

lemma propagate_write_result:
  "(case x of None \<Rightarrow> None
    | Some (r, w') \<Rightarrow> if r = WRITE_ERROR then Some (WRITE_ERROR, w') else Some (WRITE_SUCCESSFUL, w'))
   = x"
  by (cases x) auto

lemma c_str_literals [simp]:
  "c_str ''.html'' = ''.html''" "c_str ''.jpg'' = ''.jpg''"
  "c_str ''.js'' = ''.js''" "c_str ''.css'' = ''.css''"
  by (simp_all add: c_str_def NUL_def)

lemma write_content_type_eq:
  "write_content_type fd path w = write_message fd (resolve_content_type (c_str path)) w"
proof (cases "last_delimiter_suffix (c_str path)")
  case None
  then show ?thesis
    by (simp add: write_content_type_def strrchr_def FILE_EXTENSION_DELIMITER_def
        strrchr_from_spec resolve_content_type_def propagate_write_result)
next
  case (Some sfx)
  with last_delimiter_suffix_NUL [of "c_str path" sfx] have "c_str sfx = sfx"
    by (simp add: c_str_no_NUL)
  with Some show ?thesis
    by (simp add: write_content_type_def strrchr_def FILE_EXTENSION_DELIMITER_def
        strrchr_from_spec resolve_content_type_def propagate_write_result strcmp_zero_iff
        HTML_EXTENSION_def JPEG_EXTENSION_def JAVA_SCRIPT_EXTENSION_def CSS_EXTENSION_def)
qed

lemma last_delimiter_suffix_iff:
  assumes "CHR ''.'' \<notin> set e"
  shows "last_delimiter_suffix p = Some (CHR ''.'' # e) \<longleftrightarrow> suffix (CHR ''.'' # e) p"
proof
  assume "last_delimiter_suffix p = Some (CHR ''.'' # e)"
  then have dot: "CHR ''.'' \<in> set p"
    and e: "e = rev (takeWhile (\<lambda>c. c \<noteq> CHR ''.'') (rev p))"
    by (auto simp: last_delimiter_suffix_def split: if_splits)
  from last_delimiter_split [OF dot] e show "suffix (CHR ''.'' # e) p"
    by (auto simp: suffix_def)
next
  assume "suffix (CHR ''.'' # e) p"
  then obtain zs where p: "p = zs @ CHR ''.'' # e" by (auto simp: suffix_def)
  have "takeWhile (\<lambda>c. c \<noteq> CHR ''.'') (rev p) = rev e"
    using assms by (auto simp add: p takeWhile_tail)
  then show "last_delimiter_suffix p = Some (CHR ''.'' # e)"
    by (simp add: last_delimiter_suffix_def p)
qed

lemma last_delimiter_suffix_None_iff:
  "last_delimiter_suffix p = None \<longleftrightarrow> CHR ''.'' \<notin> set p"
  by (simp add: last_delimiter_suffix_def)

lemma resolve_content_type_suffix:
  "resolve_content_type p =
     (if suffix ''.html'' p then ''text/html''
      else if suffix ''.jpg'' p then ''image/jpeg''
      else if suffix ''.js'' p then ''text/javascript''
      else if suffix ''.css'' p then ''text/css''
      else ''application/octet-stream'')"
proof -
  have h: "suffix ''.html'' p \<longleftrightarrow> last_delimiter_suffix p = Some ''.html''"
    by (rule last_delimiter_suffix_iff [symmetric]) simp
  have j: "suffix ''.jpg'' p \<longleftrightarrow> last_delimiter_suffix p = Some ''.jpg''"
    by (rule last_delimiter_suffix_iff [symmetric]) simp
  have s: "suffix ''.js'' p \<longleftrightarrow> last_delimiter_suffix p = Some ''.js''"
    by (rule last_delimiter_suffix_iff [symmetric]) simp
  have c: "suffix ''.css'' p \<longleftrightarrow> last_delimiter_suffix p = Some ''.css''"
    by (rule last_delimiter_suffix_iff [symmetric]) simp
  show ?thesis
    unfolding h j s c resolve_content_type_def
    by (cases "last_delimiter_suffix p") simp_all
qed

lemma write_message_Cons:
  assumes "script w = oc # s"
  shows "\<exists>ok w1 r. write_message fd m w = Some (ok, w1) \<and> script w1 = s
      \<and> fd_table w1 = fd_table w
      \<and> calls w1 = calls w @ [SysWrite fd (c_str m) r]
      \<and> (ok \<longleftrightarrow> 0 \<le> r) \<and> (oc = Fail \<longrightarrow> \<not> ok) \<and> r \<le> int (strlen m)
      \<and> r = (case oc of Fail \<Rightarrow> - 1 | Accept k \<Rightarrow> int (min k (strlen m)))
      \<and> sock_out w1 = (sock_out w)(fd := sock_out w fd @ take (nat r) (c_str m))"
proof (cases oc)
  case Fail
  with assms show ?thesis by (auto simp add: write_message_Fail)
next
  case (Accept k)
  with assms show ?thesis by (auto simp add: write_message_Accept min_def)
qed

lemma write_message_SomeD:
  assumes "write_message fd m w = Some (ok, w1)"
  shows "\<exists>oc r. script w = oc # script w1
      \<and> fd_table w1 = fd_table w
      \<and> calls w1 = calls w @ [SysWrite fd (c_str m) r]
      \<and> (ok \<longleftrightarrow> 0 \<le> r) \<and> (oc = Fail \<longrightarrow> \<not> ok) \<and> r \<le> int (strlen m)
      \<and> r = (case oc of Fail \<Rightarrow> - 1 | Accept k \<Rightarrow> int (min k (strlen m)))
      \<and> sock_out w1 = (sock_out w)(fd := sock_out w fd @ take (nat r) (c_str m))"
proof (cases "script w")
  case Nil
  with assms show ?thesis by (simp add: write_message_Nil)
next
  case (Cons oc s)
  from write_message_Cons [OF Cons, of fd m] assms Cons show ?thesis by auto
qed

lemma sys_sendfile_Fail:
  "script w = Fail # s \<Longrightarrow>
   sys_sendfile out_fd in_fd t n w =
     Some (- 1, t, w\<lparr>script := s, calls := calls w @ [SysSendfile out_fd in_fd t n (- 1)]\<rparr>)"
  by (simp add: sys_sendfile_def)

lemma sys_sendfile_Accept:
  "script w = Accept k # s \<Longrightarrow> map_of (fd_table w) in_fd = Some (Regular data) \<Longrightarrow> 0 \<le> t \<Longrightarrow>
   sys_sendfile out_fd in_fd t n w =
     Some (int (min k (min (nat n) (length data - nat t))),
           t + int (min k (min (nat n) (length data - nat t))),
           w\<lparr>script := s,
             sock_out := (sock_out w)(out_fd := sock_out w out_fd @
               take (min k (min (nat n) (length data - nat t))) (drop (nat t) data)),
             calls := calls w @ [SysSendfile out_fd in_fd t n
               (int (min k (min (nat n) (length data - nat t))))]\<rparr>)"
  by (simp add: sys_sendfile_def Let_def)

lemma sys_sendfile_Cons_post:
  assumes "script w = oc # s"
  shows "\<exists>r off' w1. sys_sendfile out_fd in_fd t n w = Some (r, off', w1) \<and> script w1 = s
      \<and> fd_table w1 = fd_table w
      \<and> calls w1 = calls w @ [SysSendfile out_fd in_fd t n r]
      \<and> (oc = Fail \<longrightarrow> r < 0)"
  using assms
  by (simp add: sys_sendfile_def Let_def split: outcome.split option.split node.split)

lemma sys_sendfile_SomeD:
  assumes "sys_sendfile out_fd in_fd t n w = Some (r, off', w1)"
  shows "\<exists>oc. script w = oc # script w1
      \<and> fd_table w1 = fd_table w
      \<and> calls w1 = calls w @ [SysSendfile out_fd in_fd t n r]
      \<and> (oc = Fail \<longrightarrow> r < 0)"
proof (cases "script w")
  case Nil
  with assms show ?thesis by (simp add: sys_sendfile_Nil)
next
  case (Cons oc s)
  from sys_sendfile_Cons_post [OF Cons, of out_fd in_fd t n] assms Cons show ?thesis by auto
qed

lemma fail_only_last_single [simp]: "fail_only_last [c]"
  by (simp add: fail_only_last_def)

lemma fail_only_last_Nil [simp]: "fail_only_last []"
  by (simp add: fail_only_last_def)

lemma fail_only_last_Cons:
  "\<not> failed c \<Longrightarrow> fail_only_last cs \<Longrightarrow> fail_only_last (c # cs)"
  by (cases cs) (simp_all add: fail_only_last_def)

lemma sendfile_loop_returns:
  "Fail \<in> set (script w) \<Longrightarrow> \<exists>t' w'. sendfile_loop s f t n w = Some (t', w')"
proof (induction "script w" arbitrary: w t)
  case Nil
  then show ?case by simp
next
  case (Cons oc sc)
  show ?case
  proof (cases "t < n")
    case False
    then show ?thesis by (simp add: sendfile_loop_done)
  next
    case True
    from sys_sendfile_Cons_post [OF Cons.hyps(2) [symmetric], of s f t n]
    obtain r off' w1 where sf: "sys_sendfile s f t n w = Some (r, off', w1)"
      and sc: "script w1 = sc" and fl: "oc = Fail \<longrightarrow> r < 0"
      by blast
    show ?thesis
    proof (cases "r \<ge> 0")
      case False
      with True sf show ?thesis by (simp add: sendfile_loop_step)
    next
      case r: True
      with fl have "oc \<noteq> Fail" by auto
      with Cons.prems Cons.hyps(2) [symmetric] sc have "Fail \<in> set (script w1)" by auto
      from Cons.hyps(1) [OF sc [symmetric] this, of "off' + r"] True sf r
      show ?thesis by (simp add: sendfile_loop_step)
    qed
  qed
qed

lemma unused_exists: "filter (\<lambda>n. n \<notin> set used) (map int [0 ..< Suc (length used)]) \<noteq> []"
proof
  assume "filter (\<lambda>n. n \<notin> set used) (map int [0 ..< Suc (length used)]) = []"
  then have "\<forall>x \<in> set (map int [0 ..< Suc (length used)]). \<not> x \<notin> set used"
    by (simp only: filter_empty_conv)
  then have "int ` {0 ..< Suc (length used)} \<subseteq> set used"
    unfolding set_map set_upt by blast
  then have "card (int ` {0 ..< Suc (length used)}) \<le> card (set used)"
    by (simp add: card_mono)
  also have "\<dots> \<le> length used" by (rule card_length)
  finally show False by (simp add: card_image)
qed

lemma lowest_unused_props: "lowest_unused used \<notin> set used \<and> 0 \<le> lowest_unused used"
proof -
  let ?c = "filter (\<lambda>n. n \<notin> set used) (map int [0 ..< Suc (length used)])"
  have "hd ?c \<in> set ?c" using unused_exists [of used] by (rule hd_in_set)
  then show ?thesis unfolding lowest_unused_def by auto
qed

lemma lowest_unused_fresh: "lowest_unused used \<notin> set used"
  using lowest_unused_props [of used] by simp

lemma lowest_unused_nonneg: "0 \<le> lowest_unused used"
  using lowest_unused_props [of used] by simp

lemma fstat_after_open:
  "fs (c_str path) = Some nd \<Longrightarrow> sys_open fs path w = (fd, w0) \<Longrightarrow>
   0 \<le> fd \<and> map_of (fd_table w0) fd = Some nd"
  using lowest_unused_nonneg [of "map fst (fd_table w)"]
  by (auto simp: sys_open_def Let_def)

lemma opened_fields [simp]:
  "script (opened nd w) = script w" "calls (opened nd w) = calls w"
  "sock_out (opened nd w) = sock_out w"
  "fd_table (opened nd w) = (lowest_unused (map fst (fd_table w)), nd) # fd_table w"
  by (simp_all add: opened_def)

lemma send_http_response_unopenable:
  "fs (c_str path) = None \<Longrightarrow>
   send_http_response fs sock path w = map_option snd (write_message sock NOT_FOUND_RESPONSE w)"
  by (cases "write_message sock NOT_FOUND_RESPONSE w")
    (auto simp: send_http_response_def sys_open_def)

lemma send_http_response_special:
  "fs (c_str path) = Some Special \<Longrightarrow>
   send_http_response fs sock path w =
     map_option snd (write_message sock NOT_FOUND_RESPONSE (opened Special w))"
  using lowest_unused_nonneg [of "map fst (fd_table w)"]
  by (cases "write_message sock NOT_FOUND_RESPONSE (opened Special w)")
    (auto simp: send_http_response_def sys_open_def sys_fstat_def Let_def opened_def)

lemma send_http_response_regular:
  "fs (c_str path) = Some (Regular data) \<Longrightarrow>
   send_http_response fs sock path w =
     serve_regular sock path (lowest_unused (map fst (fd_table w))) (int (length data))
       (opened (Regular data) w)"
  using lowest_unused_nonneg [of "map fst (fd_table w)"]
  by (simp add: send_http_response_def sys_open_def sys_fstat_def Let_def opened_def
      serve_regular_def cong: option.case_cong prod.case_cong if_cong)

lemma write_message_sock_out:
  assumes "write_message fd m w = Some (ok, w1)"
  shows "\<exists>r. trail fd w w1 [SysWrite fd (c_str m) r] \<and> (ok \<longleftrightarrow> 0 \<le> r)
     \<and> (ok \<longrightarrow> Fail \<notin> set (take 1 (script w)))
     \<and> (\<exists>oc s. script w = oc # s
           \<and> r = (case oc of Fail \<Rightarrow> - 1 | Accept k \<Rightarrow> int (min k (strlen m))))"
proof -
  from write_message_SomeD [OF assms] obtain oc r where
    f: "script w = oc # script w1" "fd_table w1 = fd_table w"
    "calls w1 = calls w @ [SysWrite fd (c_str m) r]" "ok \<longleftrightarrow> 0 \<le> r"
    "oc = Fail \<longrightarrow> \<not> ok"
    "sock_out w1 = (sock_out w)(fd := sock_out w fd @ take (nat r) (c_str m))"
    and r: "r = (case oc of Fail \<Rightarrow> - 1 | Accept k \<Rightarrow> int (min k (strlen m)))"
    by blast
  from f have "trail fd w w1 [SysWrite fd (c_str m) r]" and "ok \<longleftrightarrow> 0 \<le> r"
    and "ok \<longrightarrow> Fail \<notin> set (take 1 (script w))"
    by (auto simp: trail_def)
  with f(1) r show ?thesis by blast
qed

lemma sys_sendfile_sock_out:
  assumes "script w = oc # s"
  shows "\<exists>r off' w1. sys_sendfile out_fd in_fd t n w = Some (r, off', w1) \<and>
     sock_out w1 = (sock_out w)(out_fd := sock_out w out_fd @
        delivered (fd_table w) (SysSendfile out_fd in_fd t n r))"
  using assms
  by (simp add: sys_sendfile_def Let_def split: outcome.split option.split node.split)

lemma trail_sendfile:
  assumes "sys_sendfile out_fd in_fd t n w = Some (r, off', w1)"
  shows "trail out_fd w w1 [SysSendfile out_fd in_fd t n r]
     \<and> (0 \<le> r \<longrightarrow> Fail \<notin> set (take 1 (script w)))"
proof -
  from sys_sendfile_SomeD [OF assms] obtain oc where
    sc: "script w = oc # script w1" and "fd_table w1 = fd_table w"
    "calls w1 = calls w @ [SysSendfile out_fd in_fd t n r]" "oc = Fail \<longrightarrow> r < 0"
    by blast
  moreover from sys_sendfile_sock_out [OF sc, of out_fd in_fd t n] assms
  have "sock_out w1 = (sock_out w)(out_fd := sock_out w out_fd @
        delivered (fd_table w) (SysSendfile out_fd in_fd t n r))"
    by auto
  ultimately show ?thesis by (auto simp: trail_def)
qed

lemma trail_refl: "trail sock w w []"
  by (simp add: trail_def)

lemma trail_trans:
  assumes "trail sock w w1 cs1" and "trail sock w1 w2 cs2" and "list_all (\<lambda>c. \<not> failed c) cs1"
    and "Fail \<notin> set (take (length cs1) (script w))"
  shows "trail sock w w2 (cs1 @ cs2)"
proof -
  have "Fail \<notin> set (take (length (cs1 @ cs2) - 1) (script w))"
  proof (cases "cs2 = []")
    case True
    with assms(1) show ?thesis by (simp add: trail_def)
  next
    case False
    then have "length (cs1 @ cs2) - 1 = length cs1 + (length cs2 - 1)"
      by (cases cs2) simp_all
    with assms(1,2,4) show ?thesis
      by (simp add: trail_def take_add)
  qed
  moreover
  have "fail_only_last (cs1 @ cs2)"
  proof (cases "cs2 = []")
    case True
    with assms(1) show ?thesis by (simp add: trail_def)
  next
    case False
    with assms(2,3) show ?thesis
      by (simp add: trail_def fail_only_last_def butlast_append)
  qed
  ultimately show ?thesis using assms(1,2)
    by (auto simp: trail_def add.commute)
qed

lemma trail_loop:
  "sendfile_loop s f t n w = Some (t', w') \<Longrightarrow> \<exists>cs. trail s w w' cs"
proof (induction s f t n w rule: sendfile_loop.induct)
  case (1 s f t n w)
  show ?case
  proof (cases "t < n")
    case False
    with "1.prems" have "w' = w" by (simp add: sendfile_loop_done)
    then show ?thesis using trail_refl by blast
  next
    case True
    with "1.prems" obtain r off' w1 where
      sf: "sys_sendfile s f t n w = Some (r, off', w1)"
      and rest: "(if r \<ge> 0 then sendfile_loop s f (off' + r) n w1 else Some (off', w1)) = Some (t', w')"
      by (auto simp add: sendfile_loop_step split: option.splits)
    from trail_sendfile [OF sf] have tr: "trail s w w1 [SysSendfile s f t n r]"
      and nf: "0 \<le> r \<longrightarrow> Fail \<notin> set (take 1 (script w))"
      by blast+
    show ?thesis
    proof (cases "r \<ge> 0")
      case False
      with rest have "w' = w1" by simp
      with tr show ?thesis by blast
    next
      case True
      with rest have loop: "sendfile_loop s f (off' + r) n w1 = Some (t', w')" by simp
      from "1.IH" [OF \<open>t < n\<close> sf refl refl True loop]
      obtain cs where "trail s w1 w' cs" by blast
      from trail_trans [OF tr this] True nf
      show ?thesis by (auto simp: failed_def)
    qed
  qed
qed

lemma trail_step_first:
  assumes run: "(case write_message sock m w of
                   None \<Rightarrow> None
                 | Some (r, w1) \<Rightarrow> if r = WRITE_ERROR then Some w1 else K w1) = Some w'"
    and K: "\<And>w1. K w1 = Some w' \<Longrightarrow> \<exists>cs. trail sock w1 w' cs"
  shows "\<exists>r cs. trail sock w w' (SysWrite sock (c_str m) r # cs)
     \<and> (\<exists>oc s. script w = oc # s
           \<and> r = (case oc of Fail \<Rightarrow> - 1 | Accept k \<Rightarrow> int (min k (strlen m))))"
proof (cases "write_message sock m w")
  case None
  with run show ?thesis by simp
next
  case (Some res)
  obtain ok w1 where res: "res = (ok, w1)" by (cases res)
  from write_message_sock_out [OF Some [unfolded res]] obtain r where
    tr: "trail sock w w1 [SysWrite sock (c_str m) r]" and ok: "ok \<longleftrightarrow> 0 \<le> r"
    and nf: "ok \<longrightarrow> Fail \<notin> set (take 1 (script w))"
    and r: "\<exists>oc s. script w = oc # s
           \<and> r = (case oc of Fail \<Rightarrow> - 1 | Accept k \<Rightarrow> int (min k (strlen m)))"
    by blast
  show ?thesis
  proof (cases ok)
    case False
    with run Some res have "w' = w1" by simp
    with tr r show ?thesis by blast
  next
    case True
    with run Some res have "K w1 = Some w'" by simp
    from K [OF this] obtain cs where "trail sock w1 w' cs" by blast
    from trail_trans [OF tr this] True ok nf
    have "trail sock w w' (SysWrite sock (c_str m) r # cs)" by (auto simp: failed_def)
    with r show ?thesis by blast
  qed
qed

lemma trail_step:
  assumes run: "(case write_message sock m w of
                   None \<Rightarrow> None
                 | Some (r, w1) \<Rightarrow> if r = WRITE_ERROR then Some w1 else K w1) = Some w'"
    and K: "\<And>w1. K w1 = Some w' \<Longrightarrow> \<exists>cs. trail sock w1 w' cs"
  shows "\<exists>r cs. trail sock w w' (SysWrite sock (c_str m) r # cs)"
  using trail_step_first [OF run K] by blast

lemma c_str_status [simp]:
  "c_str OK_STATUS_LINE = OK_STATUS_LINE" "c_str NOT_FOUND_RESPONSE = NOT_FOUND_RESPONSE"
  by (simp_all add: c_str_def NUL_def OK_STATUS_LINE_def NOT_FOUND_RESPONSE_def CRLF_def)

lemma strlen_status [simp]:
  "strlen NOT_FOUND_RESPONSE = length NOT_FOUND_RESPONSE"
  "strlen OK_STATUS_LINE = length OK_STATUS_LINE"
  by (simp_all add: strlen_def)

lemma serve_regular_trail:
  assumes "serve_regular sock path fd n w0 = Some w'"
  shows "\<exists>r cs. trail sock w0 w' (SysWrite sock OK_STATUS_LINE r # cs)
     \<and> (\<exists>oc s. script w0 = oc # s
           \<and> r = (case oc of Fail \<Rightarrow> - 1
                    | Accept k \<Rightarrow> int (min k (length OK_STATUS_LINE))))"
proof -
  have "\<exists>r cs. trail sock w0 w' (SysWrite sock (c_str OK_STATUS_LINE) r # cs)
     \<and> (\<exists>oc s. script w0 = oc # s
           \<and> r = (case oc of Fail \<Rightarrow> - 1
                    | Accept k \<Rightarrow> int (min k (strlen OK_STATUS_LINE))))"
  proof (rule trail_step_first [OF assms [unfolded serve_regular_def write_content_type_eq]])
    fix w1
    assume "(case write_message sock ''Content-Type: '' w1 of
               None \<Rightarrow> None
             | Some (r2, w2) \<Rightarrow>
                 if r2 = WRITE_ERROR then Some w2
                 else
                   (case write_message sock (resolve_content_type (c_str path)) w2 of
                      None \<Rightarrow> None
                    | Some (r3, w3) \<Rightarrow>
                        if r3 = WRITE_ERROR then Some w3
                        else
                          (case write_message sock (CRLF @ CRLF) w3 of
                             None \<Rightarrow> None
                           | Some (r4, w4) \<Rightarrow>
                               if r4 = WRITE_ERROR then Some w4
                               else
                                 (case sendfile_loop sock fd 0 n w4 of
                                    None \<Rightarrow> None
                                  | Some (final_total, w5) \<Rightarrow> Some w5)))) = Some w'"
    then have "\<exists>r cs. trail sock w1 w' (SysWrite sock (c_str ''Content-Type: '') r # cs)"
    proof (rule trail_step)
      fix w2
      assume "(case write_message sock (resolve_content_type (c_str path)) w2 of
                      None \<Rightarrow> None
                    | Some (r3, w3) \<Rightarrow>
                        if r3 = WRITE_ERROR then Some w3
                        else
                          (case write_message sock (CRLF @ CRLF) w3 of
                             None \<Rightarrow> None
                           | Some (r4, w4) \<Rightarrow>
                               if r4 = WRITE_ERROR then Some w4
                               else
                                 (case sendfile_loop sock fd 0 n w4 of
                                    None \<Rightarrow> None
                                  | Some (final_total, w5) \<Rightarrow> Some w5))) = Some w'"
      then have "\<exists>r cs. trail sock w2 w'
          (SysWrite sock (c_str (resolve_content_type (c_str path))) r # cs)"
      proof (rule trail_step)
        fix w3
        assume "(case write_message sock (CRLF @ CRLF) w3 of
                             None \<Rightarrow> None
                           | Some (r4, w4) \<Rightarrow>
                               if r4 = WRITE_ERROR then Some w4
                               else
                                 (case sendfile_loop sock fd 0 n w4 of
                                    None \<Rightarrow> None
                                  | Some (final_total, w5) \<Rightarrow> Some w5)) = Some w'"
        then have "\<exists>r cs. trail sock w3 w' (SysWrite sock (c_str (CRLF @ CRLF)) r # cs)"
        proof (rule trail_step)
          fix w4
          assume "(case sendfile_loop sock fd 0 n w4 of
                     None \<Rightarrow> None
                   | Some (final_total, w5) \<Rightarrow> Some w5) = Some w'"
          then obtain t' where "sendfile_loop sock fd 0 n w4 = Some (t', w')"
            by (auto split: option.splits)
          then show "\<exists>cs. trail sock w4 w' cs" by (rule trail_loop)
        qed
        then show "\<exists>cs. trail sock w3 w' cs" by blast
      qed
      then show "\<exists>cs. trail sock w2 w' cs" by blast
    qed
    then show "\<exists>cs. trail sock w1 w' cs" by blast
  qed
  then show ?thesis by (simp cong: outcome.case_cong)
qed

lemma step_returns:
  assumes f: "Fail \<in> set (script w)"
    and K: "\<And>w1. Fail \<in> set (script w1) \<Longrightarrow> \<exists>w'. K w1 = Some w'"
  shows "\<exists>w'. (case write_message sock m w of
                 None \<Rightarrow> None
               | Some (r, w1) \<Rightarrow> if r = WRITE_ERROR then Some w1 else K w1) = Some w'"
proof -
  from f obtain oc s where sc: "script w = oc # s" by (cases "script w") auto
  from write_message_Cons [OF sc, of sock m] obtain ok w1 where
    wm: "write_message sock m w = Some (ok, w1)" and s1: "script w1 = s"
    and fl: "oc = Fail \<longrightarrow> \<not> ok"
    by blast
  show ?thesis
  proof (cases ok)
    case False
    with wm show ?thesis by simp
  next
    case True
    with fl f sc s1 have "Fail \<in> set (script w1)" by auto
    from K [OF this] wm True show ?thesis by simp
  qed
qed

lemma serve_regular_returns:
  assumes "Fail \<in> set (script w0)"
  shows "\<exists>w'. serve_regular sock path fd n w0 = Some w'"
  unfolding serve_regular_def write_content_type_eq
proof (rule step_returns [OF assms], rule step_returns, assumption, rule step_returns, assumption,
    rule step_returns, assumption)
  fix w1 w2 w3 w4 :: world
  assume "Fail \<in> set (script w4)"
  from sendfile_loop_returns [OF this, of sock fd 0 n]
  show "\<exists>w'. (case sendfile_loop sock fd 0 n w4 of
                 None \<Rightarrow> None
               | Some (final_total, w5) \<Rightarrow> Some w5) = Some w'"
    by auto
qed

lemma write_message_returns:
  "script w \<noteq> [] \<Longrightarrow> \<exists>ok w1. write_message fd m w = Some (ok, w1)"
  using write_message_Cons [of w _ _ fd m] by (cases "script w") blast+

lemma send_http_response_returns:
  assumes "Fail \<in> set (script w)"
  shows "\<exists>w'. send_http_response fs sock path w = Some w'"
proof (cases "fs (c_str path)")
  case None
  from assms have "script w \<noteq> []" by auto
  from write_message_returns [OF this, of sock NOT_FOUND_RESPONSE] None show ?thesis
    by (auto simp: send_http_response_unopenable)
next
  case (Some nd)
  show ?thesis
  proof (cases nd)
    case Special
    from assms have "script (opened Special w) \<noteq> []" by auto
    from write_message_returns [OF this, of sock NOT_FOUND_RESPONSE] Some Special show ?thesis
      by (auto simp: send_http_response_special)
  next
    case (Regular data)
    from assms have "Fail \<in> set (script (opened (Regular data) w))" by simp
    from serve_regular_returns [OF this] Some Regular show ?thesis
      by (simp add: send_http_response_regular)
  qed
qed

lemma send_http_response_trail:
  assumes "send_http_response fs sock path w = Some w'"
  shows "\<exists>m r cs. trail sock (case fs (c_str path) of None \<Rightarrow> w | Some nd \<Rightarrow> opened nd w) w'
            (SysWrite sock m r # cs)
     \<and> m = (case fs (c_str path) of Some (Regular data) \<Rightarrow> OK_STATUS_LINE | _ \<Rightarrow> NOT_FOUND_RESPONSE)
     \<and> (\<exists>oc s. script w = oc # s
           \<and> r = (case oc of Fail \<Rightarrow> - 1 | Accept k \<Rightarrow> int (min k (length m))))"
proof (cases "fs (c_str path)")
  case None
  with assms obtain ok where "write_message sock NOT_FOUND_RESPONSE w = Some (ok, w')"
    by (auto simp: send_http_response_unopenable)
  from write_message_sock_out [OF this] None show ?thesis by (auto cong: outcome.case_cong)
next
  case (Some nd)
  show ?thesis
  proof (cases nd)
    case Special
    with Some assms obtain ok where
      "write_message sock NOT_FOUND_RESPONSE (opened Special w) = Some (ok, w')"
      by (auto simp: send_http_response_special)
    from write_message_sock_out [OF this] Some Special show ?thesis by (auto cong: outcome.case_cong)
  next
    case (Regular data)
    with Some assms have "serve_regular sock path (lowest_unused (map fst (fd_table w)))
       (int (length data)) (opened (Regular data) w) = Some w'"
      by (simp add: send_http_response_regular)
    from serve_regular_trail [OF this] Some Regular show ?thesis by (auto cong: outcome.case_cong)
  qed
qed

lemma write_message_result:
  "script w = oc # s \<Longrightarrow>
   write_message fd m w =
     Some (case oc of
             Fail \<Rightarrow> (WRITE_ERROR,
               w\<lparr>script := s, calls := calls w @ [SysWrite fd (c_str m) (- 1)]\<rparr>)
           | Accept k \<Rightarrow> (WRITE_SUCCESSFUL,
               w\<lparr>script := s,
                 sock_out := (sock_out w)(fd := sock_out w fd @ take k (c_str m)),
                 calls := calls w @ [SysWrite fd (c_str m) (int (min k (strlen m)))]\<rparr>))"
  by (cases oc) (simp_all add: write_message_Fail write_message_Accept)

lemma failed_delivers_nothing: "failed c \<Longrightarrow> delivered tbl c = []"
  by (cases c) (auto simp: failed_def split: option.splits node.splits)

lemma c_str_resolve [simp]: "c_str (resolve_content_type p) = resolve_content_type p"
  by (simp add: resolve_content_type_def c_str_def NUL_def split: option.split)

lemma demo_run_returns:
  "\<not> Option.is_none (send_http_response demo_fs 4 ''/www/index.html''
        (demo_world [Accept 100, Accept 100, Accept 100, Accept 100, Accept 100]))"
  by code_simp

lemma c_str_interior_NUL: "NUL \<notin> set pre \<Longrightarrow> c_str (pre @ NUL # post) = pre"
  by (auto simp add: c_str_def takeWhile_tail)

lemma strlen_c_str [simp]: "strlen (c_str m) = strlen m"
  by (simp only: strlen_def c_str_idem)

lemma c_str_Nil [simp]: "c_str [] = []"
  by (simp add: c_str_def)

lemma strlen_Nil [simp]: "strlen [] = 0"
  unfolding strlen_def c_str_def by simp

lemma write_message_c_str: "write_message fd m w = write_message fd (c_str m) w"
proof (cases "script w")
  case Nil
  then show ?thesis by (simp add: write_message_Nil)
next
  case (Cons oc s)
  then show ?thesis
    by (cases oc) (simp_all add: write_message_Fail write_message_Accept)
qed

lemma demo_path [simp]: "demo_fs (c_str ''/www/index.html'') = Some (Regular ''abcd'')"
  by (simp add: demo_fs_def c_str_def NUL_def)

section \<open>The claims\<close>

text \<open>
  C1. For an existing regular file of size N the response is meant to be the status
  line, the content-type header, the blank line and then exactly the N bytes of the
  file, whatever the sizes of the transfers the kernel makes. The code does not do
  that. Here the file holds the four bytes \<open>abcd\<close>, every write is taken whole, and
  the first \<open>sendfile\<close> call transfers two bytes, which is no error. \<open>sendfile\<close> has
  then set \<open>total_num_bytes_sent\<close> to 2, the code adds the 2 it returned once more,
  the loop sees 4 and ends: the body on the socket is \<open>ab\<close>, and the function has
  returned without asking for the rest (the next outcome of the script is unused).
\<close>

theorem partial_transfer_truncates_body:
  "map_option (\<lambda>w. (sock_out w 4, script w))
     (send_http_response demo_fs 4 ''/www/index.html''
        (demo_world [Accept 100, Accept 100, Accept 100, Accept 100, Accept 2, Accept 100]))
   = Some (''HTTP/1.0 200 OK'' @ CRLF @ ''Content-Type: text/html'' @ CRLF @ CRLF @ ''ab'',
           [Accept 100])"
  by code_simp

text \<open>
  C2. The cursor of the body loop is meant to stay between 0 and the file size and to
  reach the file size exactly when the loop ends without an error. In the code the
  cursor is advanced twice for each transfer, by \<open>sendfile\<close> through the offset pointer
  and by the addition that follows. Here the file has five bytes and the first call
  transfers three: the loop ends with the cursor at 6, above the size 5, after a
  single call that reported no error, with three bytes delivered.
\<close>

theorem transfer_cursor_overshoots:
  "map_option (\<lambda>(total_num_bytes_sent, w). (total_num_bytes_sent, sock_out w 4, script w, calls w))
     (sendfile_loop 4 3 0 5
        \<lparr>script = [Accept 3, Accept 100], sock_out = (\<lambda>fd. []), calls = [],
         fd_table = [(3, Regular ''abcde'')]\<rparr>)
   = Some (6, ''abc'', [Accept 100], [SysSendfile 4 3 0 5 3])"
  by code_simp

text \<open>
  C3, as the code has it. \<open>write_message\<close> makes exactly one \<open>write\<close> call, for the bytes
  of the buffer before its first NUL, and uses up exactly one outcome: there is no
  second call. It reports success exactly when that call returned a count that is
  not negative; the socket has then received the first bytes of the buffer, as many
  as the count says, which is the whole buffer only when the single call took it
  whole.
\<close>

theorem write_message_single_write:
  assumes "write_message sock message w = Some (ok, w')"
  shows "\<exists>oc r. script w = oc # script w'
     \<and> r = (case oc of Fail \<Rightarrow> - 1 | Accept k \<Rightarrow> int (min k (strlen message)))
     \<and> calls w' = calls w @ [SysWrite sock (c_str message) r]
     \<and> (ok = WRITE_SUCCESSFUL \<longleftrightarrow> 0 \<le> r)
     \<and> sock_out w' = (sock_out w)(sock := sock_out w sock @ take (nat r) (c_str message))
     \<and> (r = int (strlen message) \<longrightarrow> sock_out w' sock = sock_out w sock @ c_str message)"
proof (cases "script w")
  case Nil
  with assms show ?thesis by (simp add: write_message_Nil)
next
  case (Cons oc s)
  show ?thesis
  proof (cases oc)
    case Fail
    with Cons assms have "ok = WRITE_ERROR"
      and "w' = w\<lparr>script := s, calls := calls w @ [SysWrite sock (c_str message) (- 1)]\<rparr>"
      by (simp_all add: write_message_Fail)
    with Cons Fail show ?thesis by simp
  next
    case (Accept k)
    with Cons assms have "ok = WRITE_SUCCESSFUL"
      and "w' = w\<lparr>script := s,
         sock_out := (sock_out w)(sock := sock_out w sock @ take k (c_str message)),
         calls := calls w @ [SysWrite sock (c_str message) (int (min k (strlen message)))]\<rparr>"
      by (simp_all add: write_message_Accept)
    with Cons Accept show ?thesis by (simp add: min_def)
  qed
qed

text \<open>A run of the statement above: a write that takes two of five bytes.\<close>

theorem write_message_single_write_witness:
  "\<exists>ok w'. write_message 4 ''hello'' (demo_world [Accept 2, Accept 100]) = Some (ok, w')
     \<and> ok = WRITE_SUCCESSFUL \<and> script w' = [Accept 100]
     \<and> calls w' = [SysWrite 4 ''hello'' 2] \<and> sock_out w' 4 = ''he''"
proof -
  have "\<not> Option.is_none (write_message 4 ''hello'' (demo_world [Accept 2, Accept 100]))"
    by code_simp
  then obtain ok w' where
    run: "write_message 4 ''hello'' (demo_world [Accept 2, Accept 100]) = Some (ok, w')"
    by (auto simp: Option.is_none_def)
  have cs: "c_str ''hello'' = ''hello''" by (simp add: c_str_def NUL_def)
  have sl: "strlen ''hello'' = 5" unfolding strlen_def cs by simp
  from write_message_single_write [OF run] run cs sl show ?thesis
    by (auto simp: demo_world_def)
qed

text \<open>
  C3 as it is worded fails: the kernel takes two of the five bytes of \<open>hello\<close>,
  \<open>write_message\<close> reports success, the socket has received \<open>he\<close>, the log holds the one
  call, and the outcome that a second call would have used is still in the script.
\<close>

theorem short_write_reported_successful:
  "map_option (\<lambda>(ok, w). (ok, sock_out w 4, script w, calls w))
     (write_message 4 ''hello'' (demo_world [Accept 2, Accept 100]))
   = Some (WRITE_SUCCESSFUL, ''he'', [Accept 100], [SysWrite 4 ''hello'' 2])"
  by code_simp

text \<open>
  C4, as the code has it. When the path cannot be opened, and when it opens but is
  not a regular file, \<open>send_http_response\<close> makes exactly one output call, a write of
  exactly the 26 bytes \<open>HTTP/1.0 404 Not Found\<close>, CR, LF, CR, LF, and returns. The
  socket receives the bytes of this message that the one write accepts and nothing
  else: all 26 when the write takes the buffer whole, the first bytes only when the
  write is short, none when the write fails.
\<close>

theorem not_found_response:
  assumes path: "fs (c_str file_path) = None \<or> fs (c_str file_path) = Some Special"
    and sc: "script w = oc # s"
  shows "\<exists>w' r. send_http_response fs sock file_path w = Some w'
     \<and> calls w' = calls w @ [SysWrite sock NOT_FOUND_RESPONSE r]
     \<and> script w' = s
     \<and> r = (case oc of Fail \<Rightarrow> - 1 | Accept k \<Rightarrow> int (min k (length NOT_FOUND_RESPONSE)))
     \<and> sock_out w' = (sock_out w)(sock := sock_out w sock @ take (nat r) NOT_FOUND_RESPONSE)
     \<and> (\<forall>k. oc = Accept k \<and> length NOT_FOUND_RESPONSE \<le> k \<longrightarrow>
           sock_out w' sock = sock_out w sock @ NOT_FOUND_RESPONSE)"
proof -
  define w0 where "w0 = (case fs (c_str file_path) of None \<Rightarrow> w | Some nd \<Rightarrow> opened nd w)"
  have w0: "script w0 = oc # s" "calls w0 = calls w" "sock_out w0 = sock_out w"
    using sc by (simp_all add: w0_def split: option.split)
  have "send_http_response fs sock file_path w =
      map_option snd (write_message sock NOT_FOUND_RESPONSE w0)"
    using path
    by (auto simp: w0_def send_http_response_unopenable send_http_response_special)
  then show ?thesis
    by (cases oc) (simp_all add: write_message_result [OF w0(1)] w0 min_def)
qed

text \<open>A run of the statement above: a path that is not in the file system.\<close>

theorem not_found_response_witness:
  "(demo_fs (c_str ''/www/missing.css'') = None \<or> demo_fs (c_str ''/www/missing.css'') = Some Special)
   \<and> script (demo_world [Accept 100]) = Accept 100 # []
   \<and> (\<exists>w'. send_http_response demo_fs 4 ''/www/missing.css'' (demo_world [Accept 100]) = Some w'
         \<and> sock_out w' 4 = NOT_FOUND_RESPONSE \<and> script w' = []
         \<and> calls w' = [SysWrite 4 NOT_FOUND_RESPONSE 26])"
proof -
  have p: "demo_fs (c_str ''/www/missing.css'') = None \<or> demo_fs (c_str ''/www/missing.css'') = Some Special"
    by (simp add: demo_fs_def c_str_def NUL_def)
  have s: "script (demo_world [Accept 100]) = Accept 100 # []"
    by (simp add: demo_world_def)
  from not_found_response [of demo_fs "''/www/missing.css''" "demo_world [Accept 100]"
      "Accept 100" "[]" 4] p s show ?thesis
    by (auto simp: demo_world_def NOT_FOUND_RESPONSE_def CRLF_def)
qed

text \<open>
  C4 as it is worded fails: the path cannot be opened, the kernel takes three of the
  26 bytes and reports no error, and the function returns with \<open>HTT\<close> on the socket,
  having made the one call and left the next outcome unused.
\<close>

theorem short_write_truncates_not_found:
  "map_option (\<lambda>w. (sock_out w 4, script w, calls w))
     (send_http_response demo_fs 4 ''/www/missing.css'' (demo_world [Accept 3, Accept 100]))
   = Some (''HTT'', [Accept 100], [SysWrite 4 (''HTTP/1.0 404 Not Found'' @ CRLF @ CRLF) 3])"
  by code_simp

text \<open>
  C5. The content type is a total function of the path alone. What
  \<open>write_content_type\<close> hands to \<open>write_message\<close> is the type the specification's
  resolver gives for the path string: the suffix that starts at the last \<open>.\<close> of the
  path is compared, byte for byte and with the \<open>.\<close> included, with \<open>.html\<close>, \<open>.jpg\<close>,
  \<open>.js\<close> and \<open>.css\<close>. Said without the search: a path that ends in \<open>.html\<close> gets
  \<open>text/html\<close>, one that ends in \<open>.jpg\<close> gets \<open>image/jpeg\<close>, one that ends in \<open>.js\<close> gets
  \<open>text/javascript\<close>, one that ends in \<open>.css\<close> gets \<open>text/css\<close>, and every other path
  (no \<open>.\<close>, another suffix, a \<open>.\<close> at the very end, a \<open>.\<close> in a directory name only)
  gets \<open>application/octet-stream\<close>. No path makes the resolution fail: the only
  failure of \<open>write_content_type\<close> is that of its write.
\<close>

theorem content_type_resolution:
  "write_content_type sockfd_to_send file_path w =
     write_message sockfd_to_send (resolve_content_type (c_str file_path)) w
   \<and> resolve_content_type (c_str file_path) =
     (if suffix ''.html'' (c_str file_path) then ''text/html''
      else if suffix ''.jpg'' (c_str file_path) then ''image/jpeg''
      else if suffix ''.js'' (c_str file_path) then ''text/javascript''
      else if suffix ''.css'' (c_str file_path) then ''text/css''
      else ''application/octet-stream'')"
  using write_content_type_eq [of sockfd_to_send file_path w]
    resolve_content_type_suffix [of "c_str file_path"]
  by (rule conjI)

text \<open>
  C6. A failing output call ends the response. If the script holds an error, the
  function returns. In every run that returns, no call but the last one of the log
  has failed and no outcome but the last one used up was an error, each call has used
  up one outcome (so no call is made twice), the socket has received what the logged
  calls delivered and a failed call has delivered nothing. \<open>write_content_type\<close> makes
  one write and reports \<open>WRITE_ERROR\<close> exactly when that write returned a negative
  value, which \<open>send_http_response\<close> answers by returning.
\<close>

theorem failure_aborts_response:
  "(Fail \<in> set (script w) \<longrightarrow> (\<exists>w'. send_http_response fs sock file_path w = Some w'))
   \<and> (\<forall>w'. send_http_response fs sock file_path w = Some w' \<longrightarrow>
        (\<exists>cs. calls w' = calls w @ cs \<and> fail_only_last cs
           \<and> script w' = drop (length cs) (script w) \<and> length cs \<le> length (script w)
           \<and> Fail \<notin> set (take (length cs - 1) (script w))
           \<and> sock_out w' sock = sock_out w sock @ concat (map (delivered (fd_table w')) cs)
           \<and> (\<forall>c \<in> set cs. failed c \<longrightarrow> delivered (fd_table w') c = [])))
   \<and> (\<forall>ok w1. write_content_type sock file_path w = Some (ok, w1) \<longrightarrow>
        (\<exists>r. calls w1 = calls w @ [SysWrite sock (resolve_content_type (c_str file_path)) r]
           \<and> (ok = WRITE_ERROR \<longleftrightarrow> r < 0)))"
proof (intro conjI allI impI)
  assume "Fail \<in> set (script w)"
  then show "\<exists>w'. send_http_response fs sock file_path w = Some w'"
    by (rule send_http_response_returns)
next
  fix w'
  assume run: "send_http_response fs sock file_path w = Some w'"
  define w0 where "w0 = (case fs (c_str file_path) of None \<Rightarrow> w | Some nd \<Rightarrow> opened nd w)"
  have w0: "calls w0 = calls w" "sock_out w0 = sock_out w" "script w0 = script w"
    by (simp_all add: w0_def split: option.split)
  from send_http_response_trail [OF run] obtain m r cs where
    "trail sock w0 w' (SysWrite sock m r # cs)"
    unfolding w0_def by blast
  with w0 have "calls w' = calls w @ SysWrite sock m r # cs"
    "fail_only_last (SysWrite sock m r # cs)"
    "script w' = drop (length (SysWrite sock m r # cs)) (script w)"
    "length (SysWrite sock m r # cs) \<le> length (script w)"
    "Fail \<notin> set (take (length (SysWrite sock m r # cs) - 1) (script w))"
    "sock_out w' sock = sock_out w sock @
       concat (map (delivered (fd_table w')) (SysWrite sock m r # cs))"
    by (simp_all add: trail_def)
  then show "\<exists>cs. calls w' = calls w @ cs \<and> fail_only_last cs
           \<and> script w' = drop (length cs) (script w) \<and> length cs \<le> length (script w)
           \<and> Fail \<notin> set (take (length cs - 1) (script w))
           \<and> sock_out w' sock = sock_out w sock @ concat (map (delivered (fd_table w')) cs)
           \<and> (\<forall>c \<in> set cs. failed c \<longrightarrow> delivered (fd_table w') c = [])"
    using failed_delivers_nothing by blast
next
  fix ok w1
  assume "write_content_type sock file_path w = Some (ok, w1)"
  then have "write_message sock (resolve_content_type (c_str file_path)) w = Some (ok, w1)"
    by (simp add: write_content_type_eq)
  from write_message_SomeD [OF this]
  show "\<exists>r. calls w1 = calls w @ [SysWrite sock (resolve_content_type (c_str file_path)) r]
           \<and> (ok = WRITE_ERROR \<longleftrightarrow> r < 0)"
    by auto
qed

text \<open>A run of the statement above: the write of the content type fails.\<close>

theorem failure_aborts_response_witness:
  "Fail \<in> set (script (demo_world [Accept 100, Accept 100, Fail, Accept 7]))
   \<and> (\<exists>w'. send_http_response demo_fs 4 ''/www/index.html''
          (demo_world [Accept 100, Accept 100, Fail, Accept 7]) = Some w'
        \<and> (\<exists>cs. calls w' = cs \<and> fail_only_last cs \<and> script w' = drop (length cs)
               [Accept 100, Accept 100, Fail, Accept 7]))
   \<and> (\<exists>ok w1. write_content_type 4 ''/www/index.html'' (demo_world [Fail, Accept 7]) = Some (ok, w1)
        \<and> (\<exists>r. calls w1 = [SysWrite 4 ''text/html'' r] \<and> (ok = WRITE_ERROR \<longleftrightarrow> r < 0)))"
proof -
  let ?w = "demo_world [Accept 100, Accept 100, Fail, Accept 7]"
  note T = failure_aborts_response [of ?w demo_fs 4 "''/www/index.html''"]
  note U = failure_aborts_response [of "demo_world [Fail, Accept 7]" demo_fs 4 "''/www/index.html''"]
  have f: "Fail \<in> set (script ?w)" by (simp add: demo_world_def)
  with T obtain w' where run: "send_http_response demo_fs 4 ''/www/index.html'' ?w = Some w'"
    by blast
  with T have "\<exists>cs. calls w' = calls ?w @ cs \<and> fail_only_last cs
      \<and> script w' = drop (length cs) (script ?w)"
    by blast
  then have a: "\<exists>cs. calls w' = cs \<and> fail_only_last cs \<and> script w' = drop (length cs)
               [Accept 100, Accept 100, Fail, Accept 7]"
    by (simp add: demo_world_def)
  have "\<not> Option.is_none (write_content_type 4 ''/www/index.html'' (demo_world [Fail, Accept 7]))"
    by code_simp
  then obtain ok w1 where
    wc: "write_content_type 4 ''/www/index.html'' (demo_world [Fail, Accept 7]) = Some (ok, w1)"
    by (auto simp: Option.is_none_def)
  have "resolve_content_type (c_str ''/www/index.html'') = ''text/html''"
    by code_simp
  with U wc have "\<exists>r. calls w1 = [SysWrite 4 ''text/html'' r] \<and> (ok = WRITE_ERROR \<longleftrightarrow> r < 0)"
    by (simp add: demo_world_def)
  with f run a wc show ?thesis by blast
qed

text \<open>
  C7, as the code has it. \<open>send_http_response\<close> never closes the descriptor it opens.
  When \<open>open\<close> fails the table of open descriptors is the same after the call as
  before. When \<open>open\<close> succeeds, whatever the exit path (the whole response, the 404
  for something that is not a regular file, a failed write or transfer), the new
  descriptor is still in the table when the function returns: the set of open
  descriptors has grown by one.
\<close>

theorem descriptor_left_open:
  assumes "send_http_response fs sock file_path w = Some w'"
  shows "(fs (c_str file_path) = None \<longrightarrow> fd_table w' = fd_table w \<and> open_fds w' = open_fds w)
    \<and> (\<forall>nd. fs (c_str file_path) = Some nd \<longrightarrow>
         (\<exists>fd. 0 \<le> fd \<and> fd \<notin> open_fds w \<and> fd_table w' = (fd, nd) # fd_table w
             \<and> open_fds w' = insert fd (open_fds w) \<and> open_fds w' \<noteq> open_fds w))"
proof -
  from send_http_response_trail [OF assms] have
    tbl: "fd_table w' =
      fd_table (case fs (c_str file_path) of None \<Rightarrow> w | Some nd \<Rightarrow> opened nd w)"
    by (auto simp: trail_def)
  let ?fd = "lowest_unused (map fst (fd_table w))"
  have fresh: "?fd \<notin> open_fds w" and nonneg: "0 \<le> ?fd"
    using lowest_unused_fresh [of "map fst (fd_table w)"]
      lowest_unused_nonneg [of "map fst (fd_table w)"]
    by (simp_all add: open_fds_def)
  show ?thesis
  proof (intro conjI allI impI)
    assume "fs (c_str file_path) = None"
    with tbl show "fd_table w' = fd_table w" and "open_fds w' = open_fds w"
      by (simp_all add: open_fds_def)
  next
    fix nd
    assume "fs (c_str file_path) = Some nd"
    with tbl have t: "fd_table w' = (?fd, nd) # fd_table w" by simp
    then have o: "open_fds w' = insert ?fd (open_fds w)" by (simp add: open_fds_def)
    with fresh have "open_fds w' \<noteq> open_fds w" by auto
    with t o fresh nonneg
    show "\<exists>fd. 0 \<le> fd \<and> fd \<notin> open_fds w \<and> fd_table w' = (fd, nd) # fd_table w
             \<and> open_fds w' = insert fd (open_fds w) \<and> open_fds w' \<noteq> open_fds w"
      by blast
  qed
qed

text \<open>A run of the statement above: a complete response for the regular file.\<close>

theorem descriptor_left_open_witness:
  "\<exists>w'. send_http_response demo_fs 4 ''/www/index.html''
          (demo_world [Accept 100, Accept 100, Accept 100, Accept 100, Accept 100]) = Some w'
     \<and> (\<exists>fd. 0 \<le> fd \<and> fd_table w' = [(fd, Regular ''abcd'')] \<and> open_fds w' = {fd})"
proof -
  from demo_run_returns obtain w' where
    run: "send_http_response demo_fs 4 ''/www/index.html''
          (demo_world [Accept 100, Accept 100, Accept 100, Accept 100, Accept 100]) = Some w'"
    by (auto simp: Option.is_none_def)
  from descriptor_left_open [OF run] run show ?thesis
    by (auto simp: demo_world_def open_fds_def)
qed

text \<open>
  C7 as it is worded fails: no descriptor is open before the call, and descriptor 0
  is open after a response that went through without any error.
\<close>

theorem descriptor_not_released:
  "map fst (fd_table (demo_world [Accept 100, Accept 100, Accept 100, Accept 100, Accept 100])) = []
   \<and> map_option (\<lambda>w. map fst (fd_table w))
     (send_http_response demo_fs 4 ''/www/index.html''
        (demo_world [Accept 100, Accept 100, Accept 100, Accept 100, Accept 100]))
   = Some [0]"
  by code_simp

text \<open>
  C8. Two invocations on the same path and the same file, on two sockets neither of
  which reports an error, are meant to put the same bytes on both. They do not when
  the kernel transfers the body in different pieces: on the first socket \<open>sendfile\<close>
  transfers the four bytes at once and the body is \<open>abcd\<close>; on the second it transfers
  two, the loop counts them twice and ends, and the body is \<open>ab\<close>.
\<close>

theorem output_depends_on_transfer_sizes:
  "map_option (\<lambda>w. sock_out w 4)
     (send_http_response demo_fs 4 ''/www/index.html''
        (demo_world [Accept 100, Accept 100, Accept 100, Accept 100, Accept 100, Accept 100]))
   = Some (''HTTP/1.0 200 OK'' @ CRLF @ ''Content-Type: text/html'' @ CRLF @ CRLF @ ''abcd'')
   \<and> map_option (\<lambda>w. sock_out w 5)
     (send_http_response demo_fs 5 ''/www/index.html''
        (demo_world [Accept 100, Accept 100, Accept 100, Accept 100, Accept 2, Accept 100]))
   = Some (''HTTP/1.0 200 OK'' @ CRLF @ ''Content-Type: text/html'' @ CRLF @ CRLF @ ''ab'')"
  by code_simp

text \<open>
  C9. \<open>write_message\<close> sends \<open>strlen(message)\<close> bytes. A buffer with a NUL in it is
  written as the bytes before that NUL would be; whatever the socket receives from
  the call is a prefix of the bytes before the first NUL and holds no NUL; and for
  the empty string the call asks for zero bytes, puts nothing on the socket, and is
  reported as a success when the kernel accepts it.
\<close>

theorem write_message_stops_at_NUL:
  "(NUL \<notin> set pre \<longrightarrow> write_message sock (pre @ NUL # post) w = write_message sock pre w)
   \<and> (\<forall>ok w'. write_message sock message w = Some (ok, w') \<longrightarrow>
        (\<exists>r bs. calls w' = calls w @ [SysWrite sock (c_str message) r]
            \<and> sock_out w' sock = sock_out w sock @ bs
            \<and> prefix bs (c_str message) \<and> NUL \<notin> set bs))
   \<and> (\<forall>k s. script w = Accept k # s \<longrightarrow>
        (\<exists>w'. write_message sock [] w = Some (WRITE_SUCCESSFUL, w')
            \<and> calls w' = calls w @ [SysWrite sock [] 0] \<and> sock_out w' = sock_out w
            \<and> script w' = s))"
proof (intro conjI allI impI)
  assume "NUL \<notin> set pre"
  then show "write_message sock (pre @ NUL # post) w = write_message sock pre w"
    by (subst write_message_c_str) (simp add: c_str_interior_NUL)
next
  fix ok w'
  assume "write_message sock message w = Some (ok, w')"
  from write_message_SomeD [OF this] obtain r where
    c: "calls w' = calls w @ [SysWrite sock (c_str message) r]"
    and o: "sock_out w' = (sock_out w)(sock := sock_out w sock @ take (nat r) (c_str message))"
    by blast
  have "prefix (take (nat r) (c_str message)) (c_str message)" by (rule take_is_prefix)
  moreover have "NUL \<notin> set (take (nat r) (c_str message))"
    using NUL_notin_c_str [of message] by (auto dest: in_set_takeD)
  ultimately show "\<exists>r bs. calls w' = calls w @ [SysWrite sock (c_str message) r]
            \<and> sock_out w' sock = sock_out w sock @ bs
            \<and> prefix bs (c_str message) \<and> NUL \<notin> set bs"
    using c o by auto
next
  fix k s
  assume "script w = Accept k # s"
  from write_message_Accept [OF this, of sock "[]"]
  show "\<exists>w'. write_message sock [] w = Some (WRITE_SUCCESSFUL, w')
            \<and> calls w' = calls w @ [SysWrite sock [] 0] \<and> sock_out w' = sock_out w
            \<and> script w' = s"
    by simp
qed

text \<open>A run of the statement above: the buffer \<open>ab\<close>, NUL, \<open>cd\<close>, and the empty string.\<close>

theorem write_message_stops_at_NUL_witness:
  "NUL \<notin> set ''ab''
   \<and> write_message 4 (''ab'' @ NUL # ''cd'') (demo_world [Accept 100])
       = write_message 4 ''ab'' (demo_world [Accept 100])
   \<and> (\<exists>ok w'. write_message 4 (''ab'' @ NUL # ''cd'') (demo_world [Accept 100]) = Some (ok, w')
        \<and> (\<exists>r bs. calls w' = [SysWrite 4 ''ab'' r] \<and> sock_out w' 4 = bs \<and> prefix bs ''ab''))
   \<and> script (demo_world [Accept 100]) = Accept 100 # []
   \<and> (\<exists>w'. write_message 4 [] (demo_world [Accept 100]) = Some (WRITE_SUCCESSFUL, w')
        \<and> calls w' = [SysWrite 4 [] 0] \<and> script w' = [])"
proof -
  let ?w = "demo_world [Accept 100]"
  note T = write_message_stops_at_NUL [of "''ab''" 4 "''cd''" ?w "''ab'' @ NUL # ''cd''"]
  have n: "NUL \<notin> set ''ab''" by (simp add: NUL_def)
  have c: "c_str (''ab'' @ NUL # ''cd'') = ''ab''" using n by (rule c_str_interior_NUL)
  have s: "script ?w = Accept 100 # []" by (simp add: demo_world_def)
  from T n have e: "write_message 4 (''ab'' @ NUL # ''cd'') ?w = write_message 4 ''ab'' ?w"
    by blast
  from write_message_returns [of ?w 4 "''ab'' @ NUL # ''cd''"] s obtain ok w' where
    run: "write_message 4 (''ab'' @ NUL # ''cd'') ?w = Some (ok, w')"
    by auto
  with T have "\<exists>r bs. calls w' = calls ?w @ [SysWrite 4 (c_str (''ab'' @ NUL # ''cd'')) r]
      \<and> sock_out w' 4 = sock_out ?w 4 @ bs \<and> prefix bs (c_str (''ab'' @ NUL # ''cd''))"
    by blast
  then have b: "\<exists>r bs. calls w' = [SysWrite 4 ''ab'' r] \<and> sock_out w' 4 = bs \<and> prefix bs ''ab''"
    unfolding c by (simp add: demo_world_def)
  from T s have "\<exists>w'. write_message 4 [] ?w = Some (WRITE_SUCCESSFUL, w')
        \<and> calls w' = calls ?w @ [SysWrite 4 [] 0] \<and> sock_out w' = sock_out ?w \<and> script w' = []"
    by blast
  then have z: "\<exists>w'. write_message 4 [] ?w = Some (WRITE_SUCCESSFUL, w')
        \<and> calls w' = [SysWrite 4 [] 0] \<and> script w' = []"
    by (auto simp: demo_world_def)
  from n e run b s z show ?thesis by blast
qed

text \<open>
  C10, as the code has it. In every invocation that returns, the first output call
  is a write on the given socket whose buffer is exactly \<open>HTTP/1.0 200 OK\<close>, CR, LF,
  or exactly \<open>HTTP/1.0 404 Not Found\<close>, CR, LF, CR, LF, the former exactly when the
  path opens as a regular file. That call returns what the first outcome of the
  script makes it return. What the socket receives in the invocation is the part of
  that buffer the first write accepted, followed by what the later calls deliver:
  nothing at all when the first write fails (there is no later call), the whole
  status line or 404 message first when the first write takes its buffer whole.
\<close>

theorem first_write_is_status_line:
  assumes "send_http_response fs sock file_path w = Some w'"
  shows "\<exists>m r cs oc s. calls w' = calls w @ SysWrite sock m r # cs
     \<and> (m = OK_STATUS_LINE \<or> m = NOT_FOUND_RESPONSE)
     \<and> (m = OK_STATUS_LINE \<longleftrightarrow> (\<exists>data. fs (c_str file_path) = Some (Regular data)))
     \<and> script w = oc # s
     \<and> r = (case oc of Fail \<Rightarrow> - 1 | Accept k \<Rightarrow> int (min k (length m)))
     \<and> sock_out w' sock =
         sock_out w sock @ take (nat r) m @ concat (map (delivered (fd_table w')) cs)
     \<and> (oc = Fail \<longrightarrow> cs = [] \<and> sock_out w' sock = sock_out w sock)
     \<and> (\<forall>k. oc = Accept k \<and> length m \<le> k \<longrightarrow>
           sock_out w' sock = sock_out w sock @ m @ concat (map (delivered (fd_table w')) cs))"
proof -
  define w0 where "w0 = (case fs (c_str file_path) of None \<Rightarrow> w | Some nd \<Rightarrow> opened nd w)"
  have w0: "calls w0 = calls w" "sock_out w0 = sock_out w" "script w0 = script w"
    by (simp_all add: w0_def split: option.split)
  have ne: "OK_STATUS_LINE \<noteq> NOT_FOUND_RESPONSE"
    by (simp add: OK_STATUS_LINE_def NOT_FOUND_RESPONSE_def)
  from send_http_response_trail [OF assms] obtain m r cs oc s where
    tr: "trail sock w0 w' (SysWrite sock m r # cs)"
    and m: "m = (case fs (c_str file_path) of
                   Some (Regular data) \<Rightarrow> OK_STATUS_LINE | _ \<Rightarrow> NOT_FOUND_RESPONSE)"
    and sc: "script w = oc # s"
    and r: "r = (case oc of Fail \<Rightarrow> - 1 | Accept k \<Rightarrow> int (min k (length m)))"
    unfolding w0_def by blast
  from m ne have m1: "m = OK_STATUS_LINE \<or> m = NOT_FOUND_RESPONSE"
    and m2: "m = OK_STATUS_LINE \<longleftrightarrow> (\<exists>data. fs (c_str file_path) = Some (Regular data))"
    by (auto split: option.splits node.splits)
  from tr w0 have c: "calls w' = calls w @ SysWrite sock m r # cs"
    and o: "sock_out w' sock =
         sock_out w sock @ take (nat r) m @ concat (map (delivered (fd_table w')) cs)"
    and nf: "Fail \<notin> set (take (length cs) (script w))"
    by (simp_all add: trail_def)
  have f: "oc = Fail \<longrightarrow> cs = [] \<and> sock_out w' sock = sock_out w sock"
  proof
    assume oc: "oc = Fail"
    have "cs = []"
    proof (cases cs)
      case Nil
      then show ?thesis .
    next
      case (Cons c cs')
      with nf sc oc show ?thesis by simp
    qed
    with o r oc show "cs = [] \<and> sock_out w' sock = sock_out w sock" by simp
  qed
  have a: "\<forall>k. oc = Accept k \<and> length m \<le> k \<longrightarrow>
           sock_out w' sock = sock_out w sock @ m @ concat (map (delivered (fd_table w')) cs)"
    using o r by (auto simp: min_def)
  from c m1 m2 sc r o f a show ?thesis by blast
qed

text \<open>A run of the statement above: the regular file, every call taken whole.\<close>

theorem first_write_is_status_line_witness:
  "\<exists>w'. send_http_response demo_fs 4 ''/www/index.html''
          (demo_world [Accept 100, Accept 100, Accept 100, Accept 100, Accept 100]) = Some w'
     \<and> (\<exists>cs. calls w' = SysWrite 4 OK_STATUS_LINE 17 # cs
           \<and> sock_out w' 4 = OK_STATUS_LINE @ concat (map (delivered (fd_table w')) cs))"
proof -
  from demo_run_returns obtain w' where
    run: "send_http_response demo_fs 4 ''/www/index.html''
          (demo_world [Accept 100, Accept 100, Accept 100, Accept 100, Accept 100]) = Some w'"
    by (auto simp: Option.is_none_def)
  have len: "length OK_STATUS_LINE = 17" by (simp add: OK_STATUS_LINE_def CRLF_def)
  from first_write_is_status_line [OF run] obtain m r cs oc s where
    c: "calls w' = calls (demo_world [Accept 100, Accept 100, Accept 100, Accept 100, Accept 100])
          @ SysWrite 4 m r # cs"
    and m: "m = OK_STATUS_LINE \<longleftrightarrow> (\<exists>data. demo_fs (c_str ''/www/index.html'') = Some (Regular data))"
    and sc: "script (demo_world [Accept 100, Accept 100, Accept 100, Accept 100, Accept 100]) = oc # s"
    and r: "r = (case oc of Fail \<Rightarrow> - 1 | Accept k \<Rightarrow> int (min k (length m)))"
    and a: "\<forall>k. oc = Accept k \<and> length m \<le> k \<longrightarrow>
           sock_out w' 4 = sock_out (demo_world [Accept 100, Accept 100, Accept 100, Accept 100, Accept 100]) 4
             @ m @ concat (map (delivered (fd_table w')) cs)"
    by blast
  from m have m': "m = OK_STATUS_LINE" by simp
  from sc have oc: "oc = Accept 100" by (simp add: demo_world_def)
  from r oc m' len have r': "r = 17" by simp
  from a oc m' len have "sock_out w' 4 = OK_STATUS_LINE @ concat (map (delivered (fd_table w')) cs)"
    by (simp add: demo_world_def)
  with c m' r' run show ?thesis by (auto simp: demo_world_def)
qed

text \<open>
  C10 as it is worded fails: the kernel takes five bytes of the status line and
  reports no error, the code goes on to the next write, and the first bytes the
  socket receives are \<open>HTTP/\<close> followed by \<open>Content-Type: \<close>, which is neither the
  status line nor the 404 message.
\<close>

theorem short_first_write_garbles_status_line:
  "map_option (\<lambda>w. sock_out w 4)
     (send_http_response demo_fs 4 ''/www/index.html''
        (demo_world [Accept 5, Accept 100, Accept 100, Accept 100, Accept 100]))
   = Some (''HTTP/'' @ ''Content-Type: '' @ ''text/html'' @ CRLF @ CRLF @ ''abcd'')"
  by code_simp

end
